theory Spec2Isabelle
  imports Main "HOL-Library.Word"
begin

unbundle bit_operations_syntax

section \<open>Go values: bytes, panics, indexing and slicing\<close>

text \<open>
  A Go \<open>byte\<close> is an 8-bit word and a Go \<open>string\<close> is a sequence of bytes, which is what
  an Isabelle \<open>string\<close> (a list of 8-bit characters) is. A \<open>[]byte\<close> is a list of bytes; the
  \<open>nil\<close> slice is the empty list: the source tells \<open>nil\<close> from an empty slice only in
  \<open>catData\<close> and \<open>recoverData\<close>, and there both branches compute the same bytes for an empty
  slice (appending nothing, comparing nothing, cutting nothing off). The capacity of a slice
  is taken to be its length.

  A function of the source either returns or panics (an index or a slice bound out of range).
\<close>

type_synonym byte = "8 word"

datatype 'a exec = Done 'a | Panic

definition len :: "'a list \<Rightarrow> int" where
  "len xs = int (length xs)"

definition index :: "'a list \<Rightarrow> int \<Rightarrow> 'a exec" where
  \<comment> \<open>\<open>xs[i]\<close>\<close>
  "index xs i = (if 0 \<le> i \<and> i < len xs then Done (xs ! nat i) else Panic)"

definition slice :: "'a list \<Rightarrow> int \<Rightarrow> int \<Rightarrow> 'a list exec" where
  \<comment> \<open>\<open>xs[lo:hi]\<close>\<close>
  "slice xs lo hi =
     (if 0 \<le> lo \<and> lo \<le> hi \<and> hi \<le> len xs
      then Done (take (nat hi - nat lo) (drop (nat lo) xs)) else Panic)"

section \<open>Errors\<close>

text \<open>
  The two error values of the package, and the two errors of Go's \<open>encoding/hex\<close>, which the
  ICX branch of \<open>AddressDecode\<close> hands to its caller as they are.
\<close>

datatype error =
    ErrorInvalidHashLength
  | ErrorInvalidAddress
  | InvalidByteError char
  | ErrLength

section \<open>Collaborators\<close>

text \<open>
  The hash primitives of \<open>owcrypt\<close> and \<open>blake256\<close> and the text codecs (\<open>Base58Encode\<close>,
  \<open>Base58Decode\<close>, \<open>bech32\<close>, \<open>base32PolyMod\<close>, \<open>eip55\<close>) are called by the source and defined
  elsewhere. They are parameters of the model: a record of functions. A decoder returns
  \<open>None\<close> for a non-nil \<open>err\<close>; the source never looks at which error it was, nor at the
  bytes returned with it. \<open>NewBase58Alphabet\<close> only wraps the alphabet string, so the base58
  codec takes the string.
\<close>

datatype hash_alg =
    HASH_ALG_HASH160
  | HASH_ALG_BLAKE2B
  | HASH_ALG_RIPEMD160
  | HASH_ALG_KECCAK256_RIPEMD160
  | HASH_ALG_SHA3_256_RIPEMD160
  | HASH_ALG_KECCAK256
  | HASH_ALG_SHA3_256
  | HASh_ALG_DOUBLE_SHA256

record collab =
  Hash :: "byte list \<Rightarrow> nat \<Rightarrow> hash_alg \<Rightarrow> byte list"
  DoubleBlake256 :: "byte list \<Rightarrow> byte list"
  Base58Encode :: "byte list \<Rightarrow> string \<Rightarrow> string"
  Base58Decode :: "string \<Rightarrow> string \<Rightarrow> byte list option"
  bech32_Encode :: "string \<Rightarrow> string \<Rightarrow> byte list \<Rightarrow> string"
  bech32_Decode :: "string \<Rightarrow> string \<Rightarrow> byte list option"
  base32PolyMod_Encode :: "string \<Rightarrow> string \<Rightarrow> byte list \<Rightarrow> string"
  base32PolyMod_Decode :: "string \<Rightarrow> string \<Rightarrow> byte list option"
  Eip55_encode :: "byte list \<Rightarrow> string"
  Eip55_decode :: "string \<Rightarrow> byte list option"

section \<open>Go's \<open>encoding/hex\<close>\<close>

text \<open>
  \<open>hex.EncodeToString\<close> writes each byte as two characters of \<open>hextable\<close>, high nibble first.
  \<open>hex.DecodeString\<close> reads two characters at a time through \<open>reverseHexTable\<close> (either case
  of a to f is accepted), fails with \<open>InvalidByteError\<close> at the first character that is no
  hex digit and with \<open>ErrLength\<close> on an odd length. The bytes Go returns beside an error are
  left out: \<open>AddressDecode\<close> drops them. Its only call passes 40 characters.
\<close>

definition hextable :: string where
  "hextable = ''0123456789abcdef''"

fun EncodeToString :: "byte list \<Rightarrow> string" where
  "EncodeToString [] = []"
| "EncodeToString (v # src) =
     hextable ! unat (drop_bit 4 v) # hextable ! unat (v AND 0x0f) # EncodeToString src"

definition reverseHexTable :: "char \<Rightarrow> byte option" where
  "reverseHexTable ch =
     (let n = (of_char ch :: nat) in
      if 48 \<le> n \<and> n \<le> 57 then Some (of_nat (n - 48))
      else if 97 \<le> n \<and> n \<le> 102 then Some (of_nat (n - 97 + 10))
      else if 65 \<le> n \<and> n \<le> 70 then Some (of_nat (n - 65 + 10))
      else None)"

fun DecodeString :: "string \<Rightarrow> error + byte list" where
  "DecodeString [] = Inr []"
| "DecodeString [p] =
     (case reverseHexTable p of None \<Rightarrow> Inl (InvalidByteError p) | Some a \<Rightarrow> Inl ErrLength)"
| "DecodeString (p # q # src) =
     (case reverseHexTable p of
        None \<Rightarrow> Inl (InvalidByteError p)
      | Some a \<Rightarrow>
         (case reverseHexTable q of
            None \<Rightarrow> Inl (InvalidByteError q)
          | Some b \<Rightarrow>
             (case DecodeString src of
                Inl e \<Rightarrow> Inl e
              | Inr dst \<Rightarrow> Inr ((push_bit 4 a OR b) # dst))))"

section \<open>Checksums\<close>

definition calcChecksum :: "collab \<Rightarrow> byte list \<Rightarrow> string \<Rightarrow> byte list exec" where
  "calcChecksum c data chkType =
     (if chkType = ''doubleSHA256'' then slice (Hash c data 0 HASh_ALG_DOUBLE_SHA256) 0 4
      else if chkType = ''doubleBlake256'' then slice (DoubleBlake256 c data) 0 4
      else if chkType = ''keccak256'' then slice (Hash c data 0 HASH_ALG_KECCAK256) 0 4
      else if chkType = ''sha3_256'' then slice (Hash c data 0 HASH_ALG_SHA3_256) 0 4
      else Done [])"

function verifyChecksum_loop :: "byte list \<Rightarrow> byte list \<Rightarrow> int \<Rightarrow> bool exec" where
  "verifyChecksum_loop checksum data i =
     (if i < 4 then
        (case index checksum i of
           Panic \<Rightarrow> Panic
         | Done a \<Rightarrow>
            (case index data (len data - 4 + i) of
               Panic \<Rightarrow> Panic
             | Done b \<Rightarrow>
                if a \<noteq> b then Done False
                else verifyChecksum_loop checksum data (i + 1)))
      else Done True)"
  by pat_completeness auto
termination
  by (relation "measure (\<lambda>(checksum, data, i). nat (4 - i))") auto

declare verifyChecksum_loop.simps [simp del]

definition verifyChecksum :: "collab \<Rightarrow> byte list \<Rightarrow> string \<Rightarrow> bool exec" where
  "verifyChecksum c data chkType =
     (case slice data 0 (len data - 4) of
        Panic \<Rightarrow> Panic
      | Done body \<Rightarrow>
         (case calcChecksum c body chkType of
            Panic \<Rightarrow> Panic
          | Done checksum \<Rightarrow> verifyChecksum_loop checksum data 0))"

section \<open>Framing\<close>

definition catData :: "byte list \<Rightarrow> byte list \<Rightarrow> byte list" where
  "catData data1 data2 = (if data2 = [] then data1 else data1 @ data2)"

text \<open>
  The two loops of \<open>recoverData\<close>. Each returns \<open>Some ErrorInvalidAddress\<close> where the source
  returns from inside the loop, and \<open>None\<close> where the loop runs to its end.
\<close>

function recoverData_prefix_loop :: "byte list \<Rightarrow> byte list \<Rightarrow> int \<Rightarrow> error option exec" where
  "recoverData_prefix_loop data prefix i =
     (if i < len prefix then
        (case index data i of
           Panic \<Rightarrow> Panic
         | Done a \<Rightarrow>
            (case index prefix i of
               Panic \<Rightarrow> Panic
             | Done b \<Rightarrow>
                if a \<noteq> b then Done (Some ErrorInvalidAddress)
                else recoverData_prefix_loop data prefix (i + 1)))
      else Done None)"
  by pat_completeness auto
termination
  by (relation "measure (\<lambda>(data, prefix, i). nat (len prefix - i))") auto

declare recoverData_prefix_loop.simps [simp del]

function recoverData_suffix_loop :: "byte list \<Rightarrow> byte list \<Rightarrow> int \<Rightarrow> error option exec" where
  "recoverData_suffix_loop data suffix i =
     (if i < len suffix then
        (case index data (len data - len suffix + i) of
           Panic \<Rightarrow> Panic
         | Done a \<Rightarrow>
            (case index suffix i of
               Panic \<Rightarrow> Panic
             | Done b \<Rightarrow>
                if a \<noteq> b then Done (Some ErrorInvalidAddress)
                else recoverData_suffix_loop data suffix (i + 1)))
      else Done None)"
  by pat_completeness auto
termination
  by (relation "measure (\<lambda>(data, suffix, i). nat (len suffix - i))") auto

declare recoverData_suffix_loop.simps [simp del]

definition recoverData :: "byte list \<Rightarrow> byte list \<Rightarrow> byte list \<Rightarrow> (error + byte list) exec" where
  "recoverData data prefix suffix =
     (case recoverData_prefix_loop data prefix 0 of
        Panic \<Rightarrow> Panic
      | Done (Some e) \<Rightarrow> Done (Inl e)
      | Done None \<Rightarrow>
         (case (if suffix \<noteq> [] then recoverData_suffix_loop data suffix 0 else Done None) of
            Panic \<Rightarrow> Panic
          | Done (Some e) \<Rightarrow> Done (Inl e)
          | Done None \<Rightarrow>
             (case (if suffix = [] then slice data (len prefix) (len data)
                    else slice data (len prefix) (len data - len suffix)) of
                Panic \<Rightarrow> Panic
              | Done payload \<Rightarrow> Done (Inr payload))))"

section \<open>Text encoding and decoding of the framed buffer\<close>

definition encodeData :: "collab \<Rightarrow> byte list \<Rightarrow> string \<Rightarrow> string \<Rightarrow> string" where
  "encodeData c data encodeType alphabet =
     (if encodeType = ''base58'' then Base58Encode c data alphabet else [])"

definition decodeData ::
  "collab \<Rightarrow> string \<Rightarrow> string \<Rightarrow> string \<Rightarrow> string \<Rightarrow> byte list \<Rightarrow> byte list
     \<Rightarrow> (error + byte list) exec" where
  "decodeData c data encodeType alphabet checkType prefix suffix =
     (if encodeType = ''base58'' then
        (case Base58Decode c data alphabet of
           None \<Rightarrow> Done (Inl ErrorInvalidAddress)
         | Some ret \<Rightarrow>
            (case verifyChecksum c ret checkType of
               Panic \<Rightarrow> Panic
             | Done ok \<Rightarrow>
                if ok = False then Done (Inl ErrorInvalidAddress)
                else
                  (case slice ret 0 (len ret - 4) of
                     Panic \<Rightarrow> Panic
                   | Done body \<Rightarrow> recoverData body prefix suffix)))
      else Done (Inr []))"

section \<open>The hash selector\<close>

definition calcHash :: "collab \<Rightarrow> byte list \<Rightarrow> string \<Rightarrow> byte list exec" where
  "calcHash c data hashType =
     (if hashType = ''h160'' then Done (Hash c data 0 HASH_ALG_HASH160)
      else if hashType = ''blake2b160'' then Done (Hash c data 20 HASH_ALG_BLAKE2B)
      else if hashType = ''ripemd160'' then Done (Hash c data 20 HASH_ALG_RIPEMD160)
      else if hashType = ''keccak256_ripemd160''
        then Done (Hash c data 0 HASH_ALG_KECCAK256_RIPEMD160)
      else if hashType = ''sha3_256_ripemd160''
        then Done (Hash c data 0 HASH_ALG_SHA3_256_RIPEMD160)
      else if hashType = ''keccak256'' then Done (Hash c data 32 HASH_ALG_KECCAK256)
      else if hashType = ''sha3_256_last_twenty''
        then slice (Hash c data 32 HASH_ALG_SHA3_256) 12 32
      else Done [])"

section \<open>The address type descriptor\<close>

text \<open>
  Modelled from the spec: the declaration of the struct \<open>AddressType\<close> is not among the
  sources. Its fields are the seven the spec's data model lists and the source reads, with the
  types the source uses them at: four strings (\<open>checksumType\<close> is concatenated in front of
  the hex text on the ICX branch), an \<open>int\<close> compared with \<open>len\<close>, and two byte slices.
\<close>

record AddressType =
  encodeType :: string
  alphabet :: string
  checksumType :: string
  hashType :: string
  hashLen :: int
  prefix :: "byte list"
  suffix :: "byte list"

section \<open>The variant codec\<close>

definition AddressEncode :: "collab \<Rightarrow> byte list \<Rightarrow> AddressType \<Rightarrow> string exec" where
  "AddressEncode c hash addresstype =
     (if encodeType addresstype = ''bech32''
      then Done (bech32_Encode c (checksumType addresstype) (alphabet addresstype) hash)
      else
        (case (if len hash \<noteq> hashLen addresstype then calcHash c hash (hashType addresstype)
               else Done hash) of
           Panic \<Rightarrow> Panic
         | Done hash' \<Rightarrow>
            if encodeType addresstype = ''base32PolyMod''
            then Done (base32PolyMod_Encode c (checksumType addresstype)
                         (alphabet addresstype) hash')
            else if encodeType addresstype = ''eip55'' then Done (Eip55_encode c hash')
            else if encodeType addresstype = ''ICX''
            then Done (checksumType addresstype @ EncodeToString hash')
            else
              (let data = catData (catData (prefix addresstype) hash') (suffix addresstype)
               in case calcChecksum c data (checksumType addresstype) of
                    Panic \<Rightarrow> Panic
                  | Done checksum \<Rightarrow>
                     Done (encodeData c (catData data checksum) (encodeType addresstype)
                             (alphabet addresstype)))))"

definition AddressDecode :: "collab \<Rightarrow> string \<Rightarrow> AddressType \<Rightarrow> (error + byte list) exec" where
  "AddressDecode c address addresstype =
     (if encodeType addresstype = ''bech32'' then
        (case bech32_Decode c address (alphabet addresstype) of
           None \<Rightarrow> Done (Inl ErrorInvalidAddress)
         | Some ret \<Rightarrow>
            if len ret \<noteq> 20 \<and> len ret \<noteq> 32 then Done (Inl ErrorInvalidHashLength)
            else Done (Inr ret))
      else if encodeType addresstype = ''base32PolyMod'' then
        (case base32PolyMod_Decode c address (alphabet addresstype) of
           None \<Rightarrow> Done (Inl ErrorInvalidAddress)
         | Some ret \<Rightarrow>
            if len ret \<noteq> hashLen addresstype then Done (Inl ErrorInvalidHashLength)
            else Done (Inr ret))
      else if encodeType addresstype = ''eip55'' then
        (case Eip55_decode c address of
           None \<Rightarrow> Done (Inl ErrorInvalidAddress)
         | Some ret \<Rightarrow>
            if len ret \<noteq> 20 then Done (Inl ErrorInvalidHashLength)
            else Done (Inr ret))
      else if encodeType addresstype = ''ICX'' then
        (case index address 0 of
           Panic \<Rightarrow> Panic
         | Done a0 \<Rightarrow>
            if a0 \<noteq> CHR ''h'' then Done (Inl ErrorInvalidAddress)
            else
              (case index address 1 of
                 Panic \<Rightarrow> Panic
               | Done a1 \<Rightarrow>
                  if a1 \<noteq> CHR ''x'' then Done (Inl ErrorInvalidAddress)
                  else if len address - 2 \<noteq> 40 then Done (Inl ErrorInvalidHashLength)
                  else
                    (case slice address 2 (len address) of
                       Panic \<Rightarrow> Panic
                     | Done body \<Rightarrow>
                        (case DecodeString body of
                           Inl err \<Rightarrow> Done (Inl err)
                         | Inr ret \<Rightarrow> Done (Inr ret)))))
      else
        (case decodeData c address (encodeType addresstype) (alphabet addresstype)
                (checksumType addresstype) (prefix addresstype) (suffix addresstype) of
           Panic \<Rightarrow> Panic
         | Done (Inl err) \<Rightarrow> Done (Inl err)
         | Done (Inr data) \<Rightarrow>
            if len data \<noteq> hashLen addresstype then Done (Inl ErrorInvalidHashLength)
            else Done (Inr data)))"

section \<open>Stand-ins for the collaborators\<close>

text \<open>
  To run the model on concrete inputs the collaborators need values. The stand-in hash
  repeats the sum of the input bytes up to the size asked for (32 bytes where the size is
  given as 0), and every stand-in text codec writes hexadecimal. The descriptors below follow
  the shape of the package's own: a version byte as prefix and a double SHA-256 checksum for
  base58, a human-readable part in \<open>checksumType\<close> for bech32 and the polymod codec, the
  literal \<open>hx\<close> for ICX.
\<close>

definition demo_Hash :: "byte list \<Rightarrow> nat \<Rightarrow> hash_alg \<Rightarrow> byte list" where
  "demo_Hash data digestLen alg =
     replicate (if digestLen = 0 then 32 else digestLen) (sum_list data)"

definition demo_decode :: "string \<Rightarrow> byte list option" where
  "demo_decode s = (case DecodeString s of Inl e \<Rightarrow> None | Inr ret \<Rightarrow> Some ret)"

definition demo :: collab where
  "demo =
     \<lparr> Hash = demo_Hash,
       DoubleBlake256 = (\<lambda>data. demo_Hash data 0 HASh_ALG_DOUBLE_SHA256),
       Base58Encode = (\<lambda>data a. EncodeToString data),
       Base58Decode = (\<lambda>s a. demo_decode s),
       bech32_Encode = (\<lambda>hrp a data. EncodeToString data),
       bech32_Decode = (\<lambda>s a. demo_decode s),
       base32PolyMod_Encode = (\<lambda>hrp a data. EncodeToString data),
       base32PolyMod_Decode = (\<lambda>s a. demo_decode s),
       Eip55_encode = EncodeToString,
       Eip55_decode = demo_decode \<rparr>"

definition demo_base58 :: AddressType where
  "demo_base58 =
     \<lparr> encodeType = ''base58'',
       alphabet = ''123456789ABCDEFGHJKLMNPQRSTUVWXYZabcdefghijkmnopqrstuvwxyz'',
       checksumType = ''doubleSHA256'', hashType = ''h160'', hashLen = 2,
       prefix = [0x00], suffix = [] \<rparr>"

definition demo_bech32 :: AddressType where
  "demo_bech32 =
     \<lparr> encodeType = ''bech32'', alphabet = ''qpzry9x8gf2tvdw0s3jn54khce6mua7l'',
       checksumType = ''bc'', hashType = [], hashLen = 20, prefix = [], suffix = [] \<rparr>"

definition demo_base32PolyMod :: AddressType where
  "demo_base32PolyMod =
     \<lparr> encodeType = ''base32PolyMod'', alphabet = ''qpzry9x8gf2tvdw0s3jn54khce6mua7l'',
       checksumType = ''bitcoincash'', hashType = ''h160'', hashLen = 2,
       prefix = [], suffix = [] \<rparr>"

definition demo_eip55 :: AddressType where
  "demo_eip55 =
     \<lparr> encodeType = ''eip55'', alphabet = [], checksumType = [], hashType = ''keccak256'',
       hashLen = 20, prefix = [], suffix = [] \<rparr>"

definition demo_ICX :: AddressType where
  "demo_ICX =
     \<lparr> encodeType = ''ICX'', alphabet = [], checksumType = ''hx'',
       hashType = ''sha3_256_last_twenty'', hashLen = 20, prefix = [], suffix = [] \<rparr>"

section \<open>Evaluation on concrete inputs\<close>

lemma replicate_numeral: "replicate (numeral v) x = x # replicate (numeral v - 1) x"
  by (simp add: numeral_eq_Suc)

lemma all_less_4: "(\<forall>k<4. P k) = (P 0 \<and> P 1 \<and> P 2 \<and> P (3::nat))"
proof -
  have "k < 4 \<longleftrightarrow> k = 0 \<or> k = 1 \<or> k = 2 \<or> k = 3" for k :: nat
    by arith
  then show ?thesis by auto
qed

lemmas demo_simps =
  demo_def demo_Hash_def demo_decode_def demo_base58_def demo_bech32_def
  demo_base32PolyMod_def demo_eip55_def demo_ICX_def
  hextable_def reverseHexTable_def len_def index_def slice_def

section \<open>Indexing, slicing and appending\<close>

lemma index_in_range: "0 \<le> i \<Longrightarrow> i < len xs \<Longrightarrow> index xs i = Done (xs ! nat i)"
  by (simp add: index_def)

lemma slice_0_4_length: "slice xs 0 4 = Done ys \<Longrightarrow> length ys = 4"
  by (auto simp add: slice_def len_def split: if_splits)

lemma catData_append: "catData data1 data2 = data1 @ data2"
  by (simp add: catData_def)

lemma int_range_split:
  "(i::int) < n \<Longrightarrow>
    (\<forall>j. i \<le> j \<and> j < n \<longrightarrow> Q j) = (Q i \<and> (\<forall>j. i + 1 \<le> j \<and> j < n \<longrightarrow> Q j))"
  by (metis add1_zle_eq order_le_less)

section \<open>Hexadecimal text decodes to the bytes it was written from\<close>

lemma low_nibble_mask: "(v::byte) AND 0x0f = take_bit 4 v"
proof -
  have "(0x0f::byte) = mask 4" by (simp add: mask_eq_exp_minus_1)
  then show ?thesis by (simp add: take_bit_eq_mask)
qed

lemma nibbles_join: "push_bit 4 (drop_bit 4 v) OR (v AND 0x0f) = (v::byte)"
  unfolding low_nibble_mask
  by (rule bit_word_eqI) (auto simp add: bit_simps)

lemma nibble_cases:
  "n < 16 \<Longrightarrow> n \<in> {0, 1, 2, 3, 4, 5, 6, 7, 8, 9, 10, 11, 12, 13, 14, 15::nat}"
  by simp arith

lemma reverseHexTable_hextable:
  assumes "n < 16"
  shows "reverseHexTable (hextable ! n) = Some (of_nat n)"
  using nibble_cases [OF assms]
  by (auto simp add: hextable_def reverseHexTable_def)

lemma high_nibble_less: "unat (drop_bit 4 (v::byte)) < 16"
proof -
  have "unat v < 2 ^ 8" using unsigned_less [of v] by simp
  then show ?thesis by (simp add: drop_bit_eq_div unat_div)
qed

lemma low_nibble_less: "unat ((v::byte) AND 0x0f) < 16"
  unfolding low_nibble_mask by (simp add: take_bit_eq_mod unat_mod)

lemma DecodeString_EncodeToString: "DecodeString (EncodeToString src) = Inr src"
proof (induction src)
  case Nil
  show ?case by simp
next
  case (Cons v src)
  have hi: "reverseHexTable (hextable ! unat (drop_bit 4 v)) = Some (drop_bit 4 v)"
    using reverseHexTable_hextable [OF high_nibble_less [of v]] by simp
  have lo: "reverseHexTable (hextable ! unat (v AND 0x0f)) = Some (v AND 0x0f)"
    using reverseHexTable_hextable [OF low_nibble_less [of v]] by simp
  show ?case using Cons.IH by (simp add: hi lo nibbles_join)
qed

lemma length_EncodeToString: "length (EncodeToString src) = 2 * length src"
  by (induction src) simp_all

lemma length_DecodeString: "DecodeString s = Inr ret \<Longrightarrow> length s = 2 * length ret"
  by (induction s arbitrary: ret rule: DecodeString.induct)
    (auto split: option.splits sum.splits)

section \<open>The checksum loop\<close>

text \<open>
  On a checksum and a buffer of at least four bytes each, the loop never reads out of range:
  started at \<open>i\<close>, it answers whether the positions from \<open>i\<close> to 3 all agree.
\<close>

lemma verifyChecksum_loop_eq:
  assumes "4 \<le> length checksum" and "4 \<le> length data" and "0 \<le> i"
  shows "verifyChecksum_loop checksum data i =
    Done (\<forall>j. i \<le> j \<and> j < 4 \<longrightarrow> checksum ! nat j = data ! nat (len data - 4 + j))"
  using assms
proof (induction checksum data i rule: verifyChecksum_loop.induct)
  case (1 checksum data i)
  let ?Q = "\<lambda>j. checksum ! nat j = data ! nat (len data - 4 + j)"
  show ?case
  proof (cases "i < 4")
    case False
    then have "(\<forall>j. i \<le> j \<and> j < 4 \<longrightarrow> ?Q j) = True"
      by auto
    then show ?thesis
      using False by (simp only: verifyChecksum_loop.simps [of checksum data i] if_False)
  next
    case True
    have a: "index checksum i = Done (checksum ! nat i)"
      using True "1.prems" by (simp add: index_in_range len_def)
    have b: "index data (len data - 4 + i) = Done (data ! nat (len data - 4 + i))"
      using True "1.prems" by (simp add: index_in_range len_def)
    show ?thesis
    proof (cases "?Q i")
      case same: True
      have "verifyChecksum_loop checksum data (i + 1) =
        Done (\<forall>j. i + 1 \<le> j \<and> j < 4 \<longrightarrow> ?Q j)"
        using "1.IH" [OF True a b] same "1.prems" by simp
      then show ?thesis
        using True same
        by (simp add: verifyChecksum_loop.simps [of checksum data i] a b
            int_range_split [OF True, of ?Q])
    next
      case differ: False
      then have "\<not> (\<forall>j. i \<le> j \<and> j < 4 \<longrightarrow> ?Q j)"
        using True by auto
      then show ?thesis
        using True differ by (simp add: verifyChecksum_loop.simps [of checksum data i] a b)
    qed
  qed
qed

lemma verifyChecksum_loop_nat:
  assumes "4 \<le> length checksum" and "4 \<le> length data"
  shows "verifyChecksum_loop checksum data 0 =
    Done (\<forall>k<4. checksum ! k = data ! (length data - 4 + k))"
proof -
  have "(\<forall>j::int. 0 \<le> j \<and> j < 4 \<longrightarrow> checksum ! nat j = data ! nat (len data - 4 + j))
      = (\<forall>k<4. checksum ! k = data ! (length data - 4 + k))" (is "?L = ?R")
  proof
    assume l: ?L
    show ?R
    proof (intro allI impI)
      fix k :: nat assume "k < 4"
      then have "checksum ! nat (int k) = data ! nat (len data - 4 + int k)"
        using l [rule_format, of "int k"] by simp
      moreover have "nat (len data - 4 + int k) = length data - 4 + k"
        using assms(2) by (simp add: len_def)
      ultimately show "checksum ! k = data ! (length data - 4 + k)" by simp
    qed
  next
    assume r: ?R
    show ?L
    proof (intro allI impI)
      fix j :: int assume j: "0 \<le> j \<and> j < 4"
      then have "nat j < 4" by arith
      then have "checksum ! nat j = data ! (length data - 4 + nat j)" using r by blast
      moreover have "nat (len data - 4 + j) = length data - 4 + nat j"
        using assms(2) j unfolding len_def by arith
      ultimately show "checksum ! nat j = data ! nat (len data - 4 + j)" by simp
    qed
  qed
  then show ?thesis using verifyChecksum_loop_eq [OF assms, of 0] by simp
qed

lemma checksum_match_iff:
  assumes "length checksum = 4" and "4 \<le> length data"
  shows "(\<forall>k<4. checksum ! k = data ! (length data - 4 + k))
       = (checksum = drop (length data - 4) data)"
proof -
  have n: "length (drop (length data - 4) data) = 4" using assms(2) by simp
  have "(checksum = drop (length data - 4) data)
      = (\<forall>k<4. checksum ! k = drop (length data - 4) data ! k)"
    using assms(1) n by (simp add: list_eq_iff_nth_eq)
  also have "\<dots> = (\<forall>k<4. checksum ! k = data ! (length data - 4 + k))"
    using assms(2) by simp
  finally show ?thesis by simp
qed

lemma calcChecksum_length:
  assumes "calcChecksum c data chkType = Done checksum"
    and "chkType \<in> {''doubleSHA256'', ''doubleBlake256'', ''keccak256'', ''sha3_256''}"
  shows "length checksum = 4"
  using assms by (auto simp add: calcChecksum_def dest: slice_0_4_length split: if_splits)

section \<open>Checksum verification\<close>

text \<open>
  Claim C8. For a buffer of at least 4 bytes and one of the four supported checksum types,
  \<open>verifyChecksum\<close> recomputes the checksum over all bytes but the last 4 and answers whether
  each of its 4 bytes equals the byte at the same position among the last 4 of the buffer:
  true when all four positions agree, false as soon as one differs. The recomputed checksum
  has exactly 4 bytes. (Where the hash collaborator hands back fewer than 4 bytes there is no
  checksum to compare and the slice in \<open>calcChecksum\<close> panics.)
\<close>

theorem verifyChecksum_exact:
  assumes "4 \<le> length data"
    and "chkType \<in> {''doubleSHA256'', ''doubleBlake256'', ''keccak256'', ''sha3_256''}"
  shows "verifyChecksum c data chkType =
           (case calcChecksum c (take (length data - 4) data) chkType of
              Panic \<Rightarrow> Panic
            | Done checksum \<Rightarrow>
               Done (\<forall>k<4. checksum ! k = data ! (length data - 4 + k)))
       \<and> (\<forall>checksum. calcChecksum c (take (length data - 4) data) chkType = Done checksum
            \<longrightarrow> length checksum = 4)"
proof -
  have body: "slice data 0 (len data - 4) = Done (take (length data - 4) data)"
    using assms(1) by (simp add: slice_def len_def nat_diff_distrib')
  have four: "length checksum = 4"
    if "calcChecksum c (take (length data - 4) data) chkType = Done checksum" for checksum
    using calcChecksum_length [OF that assms(2)] .
  have "verifyChecksum_loop checksum data 0
      = Done (\<forall>k<4. checksum ! k = data ! (length data - 4 + k))"
    if "calcChecksum c (take (length data - 4) data) chkType = Done checksum" for checksum
    using verifyChecksum_loop_nat [of checksum data] four [OF that] assms(1) by simp
  then have "verifyChecksum c data chkType =
      (case calcChecksum c (take (length data - 4) data) chkType of
         Panic \<Rightarrow> Panic
       | Done checksum \<Rightarrow>
          Done (\<forall>k<4. checksum ! k = data ! (length data - 4 + k)))"
    by (simp add: verifyChecksum_def body split: exec.splits)
  then show ?thesis using four by blast
qed

theorem verifyChecksum_exact_witness:
  "verifyChecksum demo [1, 2, 3, 3, 3, 3] ''keccak256'' = Done True
   \<and> verifyChecksum demo [1, 2, 3, 3, 9, 3] ''keccak256'' = Done False"
  using verifyChecksum_exact [where data = "[1, 2, 3, 3, 3, 3]" and chkType = "''keccak256''"
      and c = demo]
    verifyChecksum_exact [where data = "[1, 2, 3, 3, 9, 3]" and chkType = "''keccak256''"
      and c = demo]
  by (simp add: demo_simps calcChecksum_def all_less_4 replicate_numeral)

section \<open>The last 20 bytes of SHA3-256\<close>

text \<open>
  Claim C9. For the hash type that keeps the last 20 bytes of SHA3-256 (the source spells it
  \<open>sha3_256_last_twenty\<close>), \<open>calcHash\<close> asks the hashing collaborator for a 32-byte SHA3-256
  output and, the collaborator returning those 32 bytes, returns the 20 bytes at positions 12
  to 31 of it: the leading 12 are dropped.
\<close>

theorem calcHash_sha3_256_last_twenty:
  assumes "length (Hash c data 32 HASH_ALG_SHA3_256) = 32"
  shows "calcHash c data ''sha3_256_last_twenty''
           = Done (drop 12 (Hash c data 32 HASH_ALG_SHA3_256))
       \<and> length (drop 12 (Hash c data 32 HASH_ALG_SHA3_256)) = 20
       \<and> (\<forall>k<20. drop 12 (Hash c data 32 HASH_ALG_SHA3_256) ! k
                    = Hash c data 32 HASH_ALG_SHA3_256 ! (12 + k))"
  using assms by (simp add: calcHash_def slice_def len_def)

theorem calcHash_sha3_256_last_twenty_witness:
  "length (Hash demo [1, 2] 32 HASH_ALG_SHA3_256) = 32
   \<and> calcHash demo [1, 2] ''sha3_256_last_twenty'' = Done (replicate 20 3)"
  using calcHash_sha3_256_last_twenty [where c = demo and data = "[1, 2]"]
  by (simp add: demo_simps)

text \<open>
  The selector compares the name as a string: under any other spelling, \<open>sha3_256_last20\<close>
  for one, no branch is taken and the result is the nil slice.
\<close>

lemma calcHash_other_spelling: "calcHash c data ''sha3_256_last20'' = Done []"
  by (simp add: calcHash_def)

section \<open>Encoding\<close>

text \<open>
  Claim C6. On encode the hash selector runs exactly when the input length differs from
  \<open>hashLen\<close>, and bech32 is the one branch taken before that comparison.
  For bech32 the result is the bech32 collaborator's text of the raw input, whatever \<open>hashLen\<close>
  and \<open>hashType\<close> are. For every other dialect the digest is the input itself when its
  length is \<open>hashLen\<close> (then neither \<open>calcHash\<close> nor \<open>hashType\<close> has a part in the
  result) and \<open>calcHash\<close> of the input otherwise, and the address is the dialect's encoding of
  that digest: the polymod or the eip55 collaborator's text of it, the ICX literal followed by
  its hex text, or the text of the framed and checksummed buffer.
\<close>

theorem AddressEncode_hash_selection:
  "(encodeType t = ''bech32'' \<longrightarrow>
      AddressEncode c hash t = Done (bech32_Encode c (checksumType t) (alphabet t) hash))
   \<and> (encodeType t \<noteq> ''bech32'' \<longrightarrow>
      AddressEncode c hash t =
        (case (if len hash = hashLen t then Done hash else calcHash c hash (hashType t)) of
           Panic \<Rightarrow> Panic
         | Done digest \<Rightarrow>
            if encodeType t = ''base32PolyMod''
            then Done (base32PolyMod_Encode c (checksumType t) (alphabet t) digest)
            else if encodeType t = ''eip55'' then Done (Eip55_encode c digest)
            else if encodeType t = ''ICX'' then Done (checksumType t @ EncodeToString digest)
            else
              (case calcChecksum c (prefix t @ digest @ suffix t) (checksumType t) of
                 Panic \<Rightarrow> Panic
               | Done checksum \<Rightarrow>
                  Done (if encodeType t = ''base58''
                        then Base58Encode c (prefix t @ digest @ suffix t @ checksum) (alphabet t)
                        else []))))"
proof (intro conjI impI)
  assume "encodeType t = ''bech32''"
  then show "AddressEncode c hash t
      = Done (bech32_Encode c (checksumType t) (alphabet t) hash)"
    by (simp add: AddressEncode_def)
next
  assume other: "encodeType t \<noteq> ''bech32''"
  let ?selected = "if len hash = hashLen t then Done hash else calcHash c hash (hashType t)"
  have selected: "(if len hash \<noteq> hashLen t then calcHash c hash (hashType t) else Done hash)
      = ?selected"
    by simp
  show "AddressEncode c hash t =
        (case ?selected of
           Panic \<Rightarrow> Panic
         | Done digest \<Rightarrow>
            if encodeType t = ''base32PolyMod''
            then Done (base32PolyMod_Encode c (checksumType t) (alphabet t) digest)
            else if encodeType t = ''eip55'' then Done (Eip55_encode c digest)
            else if encodeType t = ''ICX'' then Done (checksumType t @ EncodeToString digest)
            else
              (case calcChecksum c (prefix t @ digest @ suffix t) (checksumType t) of
                 Panic \<Rightarrow> Panic
               | Done checksum \<Rightarrow>
                  Done (if encodeType t = ''base58''
                        then Base58Encode c (prefix t @ digest @ suffix t @ checksum) (alphabet t)
                        else [])))"
  proof (cases ?selected)
    case Panic
    then show ?thesis
      using other unfolding AddressEncode_def selected by simp
  next
    case (Done digest)
    then show ?thesis
      using other unfolding AddressEncode_def selected
      by (simp add: Let_def catData_append encodeData_def split: exec.splits)
  qed
qed

theorem AddressEncode_hash_selection_witness:
  "AddressEncode demo [1, 2, 3] demo_bech32 = Done ''010203''
   \<and> AddressEncode demo [1, 2] demo_base32PolyMod = Done ''0102''
   \<and> AddressEncode demo [1, 2] (demo_ICX \<lparr>hashLen := 2\<rparr>) = Done ''hx0102''
   \<and> AddressEncode demo [1, 2, 3] (demo_base58 \<lparr>hashType := ''blake2b160''\<rparr>)
       = Done ''00060606060606060606060606060606060606060678787878''"
  using AddressEncode_hash_selection [where t = demo_bech32 and c = demo and hash = "[1, 2, 3]"]
    AddressEncode_hash_selection [where t = demo_base32PolyMod and c = demo and hash = "[1, 2]"]
    AddressEncode_hash_selection [where t = "demo_ICX \<lparr>hashLen := 2\<rparr>" and c = demo
      and hash = "[1, 2]"]
    AddressEncode_hash_selection [where t = "demo_base58 \<lparr>hashType := ''blake2b160''\<rparr>"
      and c = demo and hash = "[1, 2, 3]"]
  by (simp add: demo_simps calcHash_def calcChecksum_def replicate_numeral)



section \<open>Decoding: bech32 and the fall-through branch\<close>

text \<open>
  Claim C7. For bech32, \<open>AddressDecode\<close> returns \<open>ErrorInvalidAddress\<close> exactly when the bech32
  collaborator fails to decode; when the collaborator succeeds it returns the payload if its
  length is 20 or 32 bytes and \<open>ErrorInvalidHashLength\<close> for every other length.
\<close>

theorem AddressDecode_bech32:
  assumes "encodeType t = ''bech32''"
  shows "(AddressDecode c address t = Done (Inl ErrorInvalidAddress)
            \<longleftrightarrow> bech32_Decode c address (alphabet t) = None)
       \<and> (\<forall>ret. bech32_Decode c address (alphabet t) = Some ret \<longrightarrow>
            AddressDecode c address t =
              (if length ret = 20 \<or> length ret = 32 then Done (Inr ret)
               else Done (Inl ErrorInvalidHashLength)))"
  using assms by (auto simp add: AddressDecode_def len_def split: option.splits)

theorem AddressDecode_bech32_witness:
  "AddressDecode demo ''zz'' demo_bech32 = Done (Inl ErrorInvalidAddress)
   \<and> AddressDecode demo ''0102'' demo_bech32 = Done (Inl ErrorInvalidHashLength)
   \<and> AddressDecode demo (EncodeToString (replicate 20 7)) demo_bech32
       = Done (Inr (replicate 20 7))"
  using AddressDecode_bech32 [where t = demo_bech32 and c = demo and address = "''zz''"]
    AddressDecode_bech32 [where t = demo_bech32 and c = demo and address = "''0102''"]
    AddressDecode_bech32 [where t = demo_bech32 and c = demo
      and address = "EncodeToString (replicate 20 7)"]
  by (simp add: demo_simps DecodeString_EncodeToString)

text \<open>
  Claim C10. Under an \<open>encodeType\<close> that is none of bech32, base32PolyMod, eip55, ICX and
  base58, \<open>decodeData\<close> returns a nil buffer and no error for every input string, so
  \<open>AddressDecode\<close> succeeds with the empty digest when \<open>hashLen\<close> is 0 and returns
  \<open>ErrorInvalidHashLength\<close> otherwise; no error for an unsupported variant exists.
\<close>

theorem AddressDecode_other_encodeType:
  assumes "encodeType t \<notin> {''bech32'', ''base32PolyMod'', ''eip55'', ''ICX'', ''base58''}"
  shows "AddressDecode c address t =
    (if hashLen t = 0 then Done (Inr []) else Done (Inl ErrorInvalidHashLength))"
  using assms by (simp add: AddressDecode_def decodeData_def len_def)

theorem AddressDecode_other_encodeType_witness:
  "AddressDecode demo ''anything'' (demo_base58 \<lparr>encodeType := ''base64'', hashLen := 0\<rparr>)
     = Done (Inr [])
   \<and> AddressDecode demo ''anything'' (demo_base58 \<lparr>encodeType := ''base64''\<rparr>)
       = Done (Inl ErrorInvalidHashLength)"
  using AddressDecode_other_encodeType
      [where t = "demo_base58 \<lparr>encodeType := ''base64'', hashLen := 0\<rparr>" and c = demo
        and address = "''anything''"]
    AddressDecode_other_encodeType
      [where t = "demo_base58 \<lparr>encodeType := ''base64''\<rparr>" and c = demo
        and address = "''anything''"]
  by (simp add: demo_simps)

section \<open>Decoding: inputs too short for the dialect\<close>

text \<open>
  Claim C3 says that \<open>AddressDecode\<close> returns a digest or an error value for every descriptor
  and every input string and never crashes. The source reads \<open>address[0]\<close> on the ICX branch
  and cuts \<open>data[:len(data)-4]\<close> in \<open>verifyChecksum\<close> without looking at the length first:
  the empty string on the ICX branch, and a base58 text that decodes to fewer than 4 bytes,
  make it panic.
\<close>

theorem AddressDecode_short_input_panics:
  "(encodeType t = ''ICX'' \<longrightarrow> AddressDecode c [] t = Panic)
   \<and> (encodeType t = ''base58'' \<and> Base58Decode c address (alphabet t) = Some ret
        \<and> length ret < 4 \<longrightarrow> AddressDecode c address t = Panic)"
proof -
  have "verifyChecksum c ret chkType = Panic" if "length ret < 4" for chkType
    using that by (simp add: verifyChecksum_def slice_def len_def)
  then show ?thesis
    by (simp add: AddressDecode_def decodeData_def index_def len_def)
qed

theorem AddressDecode_short_input_panics_witness:
  "AddressDecode demo [] demo_ICX = Panic \<and> AddressDecode demo ''0102'' demo_base58 = Panic"
  using AddressDecode_short_input_panics [where t = demo_ICX and c = demo]
    AddressDecode_short_input_panics [where t = demo_base58 and c = demo
      and address = "''0102''" and ret = "[1, 2]"]
  by (simp add: demo_simps)

section \<open>Decoding: ICX\<close>

text \<open>
  Claim C5 says that on the ICX branch every input that does not start with \<open>hx\<close> gets
  \<open>ErrorInvalidAddress\<close>. The one-character input \<open>h\<close> does not start with \<open>hx\<close>; the source
  finds \<open>address[0]\<close> to be \<open>h\<close>, reads \<open>address[1]\<close> and panics.
\<close>

theorem AddressDecode_ICX_one_char_panics:
  assumes "encodeType t = ''ICX''"
  shows "AddressDecode c ''h'' t = Panic"
  using assms by (simp add: AddressDecode_def index_def len_def)

theorem AddressDecode_ICX_one_char_panics_witness:
  "AddressDecode demo ''h'' demo_ICX = Panic"
  using AddressDecode_ICX_one_char_panics [where t = demo_ICX and c = demo]
  by (simp add: demo_ICX_def)

text \<open>
  On inputs of two characters or more the branch does what the claim describes:
  \<open>ErrorInvalidAddress\<close> unless the first two characters are \<open>h\<close> and \<open>x\<close> in lower case,
  then \<open>ErrorInvalidHashLength\<close> unless exactly 40 characters remain, then the hex decoding
  of those 40 characters, its error handed on unchanged; a digest returned has 20 bytes.
\<close>

lemma AddressDecode_ICX_two_chars:
  assumes "encodeType t = ''ICX''"
  shows "AddressDecode c (a # b # body) t =
    (if a \<noteq> CHR ''h'' \<or> b \<noteq> CHR ''x'' then Done (Inl ErrorInvalidAddress)
     else if length body \<noteq> 40 then Done (Inl ErrorInvalidHashLength)
     else (case DecodeString body of Inl err \<Rightarrow> Done (Inl err) | Inr ret \<Rightarrow> Done (Inr ret)))"
  using assms by (simp add: AddressDecode_def index_def len_def slice_def)

lemma AddressDecode_ICX_digest_length:
  assumes "encodeType t = ''ICX''" and "AddressDecode c address t = Done (Inr ret)"
  shows "length ret = 20"
proof (cases address)
  case Nil
  then show ?thesis
    using assms by (simp add: AddressDecode_def index_def len_def)
next
  case (Cons a rest)
  show ?thesis
  proof (cases rest)
    case Nil
    then show ?thesis
      using assms Cons by (simp add: AddressDecode_def index_def len_def split: if_splits)
  next
    case (Cons b body)
    then show ?thesis
      using assms \<open>address = a # rest\<close> length_DecodeString [of body ret]
      by (auto simp add: AddressDecode_ICX_two_chars split: if_splits sum.splits)
  qed
qed

lemma AddressDecode_ICX_upper_case:
  "AddressDecode demo (''hX'' @ EncodeToString (replicate 20 7)) demo_ICX
     = Done (Inl ErrorInvalidAddress)"
  by (simp add: AddressDecode_ICX_two_chars demo_ICX_def)

lemma AddressDecode_ICX_encoded:
  assumes "encodeType t = ''ICX''" and "length digest = 20"
  shows "AddressDecode c (''hx'' @ EncodeToString digest) t = Done (Inr digest)"
  using assms
  by (simp add: AddressDecode_ICX_two_chars length_EncodeToString DecodeString_EncodeToString)

section \<open>The framing loops\<close>

text \<open>
  On a buffer at least as long as the prefix, the prefix loop never reads out of range and
  reports whether the buffer begins with the prefix; the suffix loop likewise, on a buffer at
  least as long as the suffix.
\<close>

lemma recoverData_prefix_loop_eq:
  assumes "length pfx \<le> length data" and "0 \<le> i"
  shows "recoverData_prefix_loop data pfx i =
    Done (if \<forall>j. i \<le> j \<and> j < len pfx \<longrightarrow> data ! nat j = pfx ! nat j
          then None else Some ErrorInvalidAddress)"
  using assms
proof (induction data pfx i rule: recoverData_prefix_loop.induct)
  case (1 data pfx i)
  let ?Q = "\<lambda>j. data ! nat j = pfx ! nat j"
  show ?case
  proof (cases "i < len pfx")
    case False
    then have "(\<forall>j. i \<le> j \<and> j < len pfx \<longrightarrow> ?Q j) = True"
      by auto
    then show ?thesis
      using False
      by (simp only: recoverData_prefix_loop.simps [of data pfx i] if_False if_True)
  next
    case True
    have a: "index data i = Done (data ! nat i)"
      using True "1.prems" by (simp add: index_in_range len_def)
    have b: "index pfx i = Done (pfx ! nat i)"
      using True "1.prems" by (simp add: index_in_range)
    show ?thesis
    proof (cases "?Q i")
      case same: True
      have "recoverData_prefix_loop data pfx (i + 1) =
        Done (if \<forall>j. i + 1 \<le> j \<and> j < len pfx \<longrightarrow> ?Q j
              then None else Some ErrorInvalidAddress)"
        using "1.IH" [OF True a b] same "1.prems" by simp
      then show ?thesis
        using True same
        by (simp add: recoverData_prefix_loop.simps [of data pfx i] a b
            int_range_split [OF True, of ?Q])
    next
      case differ: False
      then have "\<not> (\<forall>j. i \<le> j \<and> j < len pfx \<longrightarrow> ?Q j)"
        using True by auto
      then show ?thesis
        using True differ by (simp add: recoverData_prefix_loop.simps [of data pfx i] a b)
    qed
  qed
qed

lemma recoverData_suffix_loop_eq:
  assumes "length sfx \<le> length data" and "0 \<le> i"
  shows "recoverData_suffix_loop data sfx i =
    Done (if \<forall>j. i \<le> j \<and> j < len sfx
                \<longrightarrow> data ! nat (len data - len sfx + j) = sfx ! nat j
          then None else Some ErrorInvalidAddress)"
  using assms
proof (induction data sfx i rule: recoverData_suffix_loop.induct)
  case (1 data sfx i)
  let ?Q = "\<lambda>j. data ! nat (len data - len sfx + j) = sfx ! nat j"
  show ?case
  proof (cases "i < len sfx")
    case False
    then have "(\<forall>j. i \<le> j \<and> j < len sfx \<longrightarrow> ?Q j) = True"
      by auto
    then show ?thesis
      using False
      by (simp only: recoverData_suffix_loop.simps [of data sfx i] if_False if_True)
  next
    case True
    have a: "index data (len data - len sfx + i) = Done (data ! nat (len data - len sfx + i))"
      using True "1.prems" by (simp add: index_in_range len_def)
    have b: "index sfx i = Done (sfx ! nat i)"
      using True "1.prems" by (simp add: index_in_range)
    show ?thesis
    proof (cases "?Q i")
      case same: True
      have "recoverData_suffix_loop data sfx (i + 1) =
        Done (if \<forall>j. i + 1 \<le> j \<and> j < len sfx \<longrightarrow> ?Q j
              then None else Some ErrorInvalidAddress)"
        using "1.IH" [OF True a b] same "1.prems" by simp
      then show ?thesis
        using True same
        by (simp add: recoverData_suffix_loop.simps [of data sfx i] a b
            int_range_split [OF True, of ?Q])
    next
      case differ: False
      then have "\<not> (\<forall>j. i \<le> j \<and> j < len sfx \<longrightarrow> ?Q j)"
        using True by auto
      then show ?thesis
        using True differ by (simp add: recoverData_suffix_loop.simps [of data sfx i] a b)
    qed
  qed
qed

lemma prefix_match_iff:
  assumes "length pfx \<le> length data"
  shows "(\<forall>j. 0 \<le> j \<and> j < len pfx \<longrightarrow> data ! nat j = pfx ! nat j)
       = (take (length pfx) data = pfx)"
    (is "?L = ?R")
proof
  assume l: ?L
  show ?R
  proof (rule nth_equalityI)
    show "length (take (length pfx) data) = length pfx" using assms by simp
  next
    fix k assume "k < length (take (length pfx) data)"
    then have k: "k < length pfx" by simp
    then have "data ! nat (int k) = pfx ! nat (int k)"
      using l [rule_format, of "int k"] by (simp add: len_def)
    then show "take (length pfx) data ! k = pfx ! k" using k by simp
  qed
next
  assume r: ?R
  show ?L
  proof (intro allI impI)
    fix j :: int assume j: "0 \<le> j \<and> j < len pfx"
    then have k: "nat j < length pfx" unfolding len_def by arith
    have "take (length pfx) data ! nat j = data ! nat j" using k by simp
    then show "data ! nat j = pfx ! nat j" using r by simp
  qed
qed

lemma suffix_match_iff:
  assumes "length sfx \<le> length data"
  shows "(\<forall>j. 0 \<le> j \<and> j < len sfx \<longrightarrow> data ! nat (len data - len sfx + j) = sfx ! nat j)
       = (drop (length data - length sfx) data = sfx)"
    (is "?L = ?R")
proof
  assume l: ?L
  show ?R
  proof (rule nth_equalityI)
    show "length (drop (length data - length sfx) data) = length sfx" using assms by simp
  next
    fix k assume "k < length (drop (length data - length sfx) data)"
    then have k: "k < length sfx" using assms by simp
    have n: "nat (len data - len sfx + int k) = length data - length sfx + k"
      using assms unfolding len_def by arith
    have "data ! nat (len data - len sfx + int k) = sfx ! nat (int k)"
      using l [rule_format, of "int k"] k by (simp add: len_def)
    then show "drop (length data - length sfx) data ! k = sfx ! k"
      using k assms n by simp
  qed
next
  assume r: ?R
  show ?L
  proof (intro allI impI)
    fix j :: int assume j: "0 \<le> j \<and> j < len sfx"
    then have k: "nat j < length sfx" unfolding len_def by arith
    have n: "nat (len data - len sfx + j) = length data - length sfx + nat j"
      using assms j unfolding len_def by arith
    have "drop (length data - length sfx) data ! nat j
        = data ! (length data - length sfx + nat j)"
      using k assms by simp
    then show "data ! nat (len data - len sfx + j) = sfx ! nat j" using r n by simp
  qed
qed

lemma recoverData_eq:
  assumes "length pfx + length sfx \<le> length data"
  shows "recoverData data pfx sfx =
    (if take (length pfx) data = pfx \<and> drop (length data - length sfx) data = sfx
     then Done (Inr (take (length data - length sfx - length pfx) (drop (length pfx) data)))
     else Done (Inl ErrorInvalidAddress))"
proof -
  have p: "length pfx \<le> length data" and s: "length sfx \<le> length data"
    using assms by simp_all
  have cut: "slice data (len pfx) (len data - len sfx) =
    Done (take (length data - length sfx - length pfx) (drop (length pfx) data))"
    using assms by (simp add: slice_def len_def nat_diff_distrib')
  have cut0: "sfx = [] \<Longrightarrow> slice data (len pfx) (len data) =
    Done (take (length data - length sfx - length pfx) (drop (length pfx) data))"
    using assms by (simp add: slice_def len_def)
  show ?thesis
    unfolding recoverData_def
    by (simp add: recoverData_prefix_loop_eq [OF p] recoverData_suffix_loop_eq [OF s]
        prefix_match_iff [OF p] suffix_match_iff [OF s] cut cut0)
qed

section \<open>Decoding: base58\<close>

text \<open>
  Claim C2 says that on the base58 path a checksum-stripped buffer that does not begin with
  the descriptor's prefix gets \<open>ErrorInvalidAddress\<close>. The source compares \<open>data[i]\<close> with
  \<open>prefix[i]\<close> for every \<open>i\<close> below the length of the prefix and never asks how long the
  buffer is. An address that decodes to nothing but the checksum of the empty buffer passes
  the checksum test, leaves an empty buffer behind, and under a descriptor with a prefix the
  first comparison reads \<open>data[0]\<close> out of range: a panic, where the claim has an error value.
\<close>

theorem AddressDecode_base58_short_payload_panics:
  assumes "encodeType t = ''base58''"
    and "Base58Decode c address (alphabet t) = Some checksum"
    and "calcChecksum c [] (checksumType t) = Done checksum"
    and "length checksum = 4"
    and "prefix t \<noteq> []"
  shows "AddressDecode c address t = Panic"
proof -
  have cut: "slice checksum 0 (len checksum - 4) = Done []"
    using assms(4) by (simp add: slice_def len_def)
  have "verifyChecksum_loop checksum checksum 0 = Done True"
    using verifyChecksum_loop_nat [of checksum checksum] assms(4) by simp
  then have ok: "verifyChecksum c checksum (checksumType t) = Done True"
    by (simp add: verifyChecksum_def cut assms(3))
  have "0 < len (prefix t)" using assms(5) by (simp add: len_def)
  then have "recoverData_prefix_loop [] (prefix t) 0 = Panic"
    by (simp add: recoverData_prefix_loop.simps [of "[]" "prefix t" 0] index_def len_def)
  then have "recoverData [] (prefix t) (suffix t) = Panic"
    by (simp add: recoverData_def)
  then show ?thesis
    using assms(1) by (simp add: AddressDecode_def decodeData_def assms(2) ok cut)
qed

theorem AddressDecode_base58_short_payload_panics_witness:
  "AddressDecode demo ''00000000'' demo_base58 = Panic"
  using AddressDecode_base58_short_payload_panics [where t = demo_base58 and c = demo
      and address = "''00000000''" and checksum = "[0, 0, 0, 0]"]
  by (simp add: demo_simps calcChecksum_def replicate_numeral)

text \<open>
  Where the decoded buffer is long enough to hold prefix, suffix and checksum, the stages run
  in the order of the claim and with its outcomes: a text that does not decode is an invalid
  address; then the last 4 bytes are compared with the checksum of the bytes before them;
  then those bytes, the checksum cut off, must begin with the prefix and end with the
  suffix; then what lies between must have \<open>hashLen\<close> bytes.
\<close>

lemma AddressDecode_base58_undecodable:
  assumes "encodeType t = ''base58''" and "Base58Decode c address (alphabet t) = None"
  shows "AddressDecode c address t = Done (Inl ErrorInvalidAddress)"
  using assms by (simp add: AddressDecode_def decodeData_def)

lemma AddressDecode_base58_stages:
  assumes "encodeType t = ''base58''"
    and "Base58Decode c address (alphabet t) = Some ret"
    and "length (prefix t) + length (suffix t) + 4 \<le> length ret"
    and "calcChecksum c (take (length ret - 4) ret) (checksumType t) = Done checksum"
    and "length checksum = 4"
  shows "AddressDecode c address t =
    (let body = take (length ret - 4) ret;
         payload = take (length body - length (suffix t) - length (prefix t))
                     (drop (length (prefix t)) body)
     in if checksum \<noteq> drop (length ret - 4) ret then Done (Inl ErrorInvalidAddress)
        else if take (length (prefix t)) body \<noteq> prefix t then Done (Inl ErrorInvalidAddress)
        else if drop (length body - length (suffix t)) body \<noteq> suffix t
          then Done (Inl ErrorInvalidAddress)
        else if len payload \<noteq> hashLen t then Done (Inl ErrorInvalidHashLength)
        else Done (Inr payload))"
proof -
  define body where "body = take (length ret - 4) ret"
  have four: "4 \<le> length ret" using assms(3) by simp
  have cut: "slice ret 0 (len ret - 4) = Done body"
    using four by (simp add: slice_def len_def nat_diff_distrib' body_def)
  have "verifyChecksum_loop checksum ret 0 = Done (checksum = drop (length ret - 4) ret)"
    unfolding checksum_match_iff [OF assms(5) four, symmetric]
    by (rule verifyChecksum_loop_nat) (simp_all add: assms(5) four)
  then have ok: "verifyChecksum c ret (checksumType t)
      = Done (checksum = drop (length ret - 4) ret)"
    using assms(4) by (simp add: verifyChecksum_def cut body_def)
  have room: "length (prefix t) + length (suffix t) \<le> length body"
    using assms(3) by (simp add: body_def)
  have "AddressDecode c address t =
    (if checksum \<noteq> drop (length ret - 4) ret then Done (Inl ErrorInvalidAddress)
     else
       (case recoverData body (prefix t) (suffix t) of
          Panic \<Rightarrow> Panic
        | Done (Inl err) \<Rightarrow> Done (Inl err)
        | Done (Inr data) \<Rightarrow>
           if len data \<noteq> hashLen t then Done (Inl ErrorInvalidHashLength)
           else Done (Inr data)))"
    using assms(1) by (simp add: AddressDecode_def decodeData_def assms(2) ok cut)
  then show ?thesis
    unfolding Let_def body_def [symmetric] recoverData_eq [OF room]
    by simp
qed

lemma AddressDecode_base58_framed:
  assumes "encodeType t = ''base58''"
    and "calcChecksum c (prefix t @ digest @ suffix t) (checksumType t) = Done checksum"
    and "length checksum = 4"
    and "Base58Decode c address (alphabet t) = Some (prefix t @ digest @ suffix t @ checksum)"
    and "len digest = hashLen t"
  shows "AddressDecode c address t = Done (Inr digest)"
proof -
  let ?ret = "prefix t @ digest @ suffix t @ checksum"
  have body: "take (length ?ret - 4) ?ret = prefix t @ digest @ suffix t"
    using assms(3) by simp
  have tail: "drop (length ?ret - 4) ?ret = checksum"
    using assms(3) by simp
  have "AddressDecode c address t =
    (let body = take (length ?ret - 4) ?ret;
         payload = take (length body - length (suffix t) - length (prefix t))
                     (drop (length (prefix t)) body)
     in if checksum \<noteq> drop (length ?ret - 4) ?ret then Done (Inl ErrorInvalidAddress)
        else if take (length (prefix t)) body \<noteq> prefix t then Done (Inl ErrorInvalidAddress)
        else if drop (length body - length (suffix t)) body \<noteq> suffix t
          then Done (Inl ErrorInvalidAddress)
        else if len payload \<noteq> hashLen t then Done (Inl ErrorInvalidHashLength)
        else Done (Inr payload))"
  proof (rule AddressDecode_base58_stages [OF assms(1) assms(4)])
    show "length (prefix t) + length (suffix t) + 4 \<le> length ?ret"
      using assms(3) by simp
    show "calcChecksum c (take (length ?ret - 4) ?ret) (checksumType t) = Done checksum"
      unfolding body using assms(2) .
    show "length checksum = 4" using assms(3) .
  qed
  then show ?thesis
    unfolding body tail Let_def using assms(5) by simp
qed

section \<open>Round trip\<close>

text \<open>
  Claim C1, as the code has it. Let the descriptor be of one of the five dialects and the
  digest have \<open>hashLen\<close> bytes. Let the descriptor agree with the constants its branch of
  \<open>AddressDecode\<close> is written with: \<open>hashLen\<close> 20 or 32 for bech32, 20 for eip55, 20 and the
  literal \<open>hx\<close> in \<open>checksumType\<close> for ICX, and for base58 a checksum type under which
  \<open>calcChecksum\<close> yields 4 bytes. Let the dialect's text collaborator decode the text it wrote
  for this digest back to the same bytes. Then \<open>AddressEncode\<close> returns an address and
  \<open>AddressDecode\<close> returns the digest for it, with no error.
\<close>

theorem AddressDecode_AddressEncode:
  assumes five: "encodeType t \<in> {''base58'', ''bech32'', ''base32PolyMod'', ''eip55'', ''ICX''}"
    and digest: "len digest = hashLen t"
    and bech32: "encodeType t = ''bech32'' \<Longrightarrow>
        (hashLen t = 20 \<or> hashLen t = 32)
        \<and> bech32_Decode c (bech32_Encode c (checksumType t) (alphabet t) digest) (alphabet t)
            = Some digest"
    and polymod: "encodeType t = ''base32PolyMod'' \<Longrightarrow>
        base32PolyMod_Decode c (base32PolyMod_Encode c (checksumType t) (alphabet t) digest)
          (alphabet t) = Some digest"
    and eip55: "encodeType t = ''eip55'' \<Longrightarrow>
        hashLen t = 20 \<and> Eip55_decode c (Eip55_encode c digest) = Some digest"
    and icx: "encodeType t = ''ICX'' \<Longrightarrow> hashLen t = 20 \<and> checksumType t = ''hx''"
    and base58: "encodeType t = ''base58'' \<Longrightarrow>
        (\<exists>checksum. calcChecksum c (prefix t @ digest @ suffix t) (checksumType t) = Done checksum
           \<and> length checksum = 4
           \<and> Base58Decode c
                (Base58Encode c (prefix t @ digest @ suffix t @ checksum) (alphabet t))
                (alphabet t)
               = Some (prefix t @ digest @ suffix t @ checksum))"
  shows "\<exists>address. AddressEncode c digest t = Done address
           \<and> AddressDecode c address t = Done (Inr digest)"
proof -
  consider (b58) "encodeType t = ''base58''" | (bech) "encodeType t = ''bech32''"
    | (poly) "encodeType t = ''base32PolyMod''" | (eip) "encodeType t = ''eip55''"
    | (hx) "encodeType t = ''ICX''"
    using five by auto
  then show ?thesis
  proof cases
    case bech
    then show ?thesis
      using bech32 digest by (auto simp add: AddressEncode_def AddressDecode_def)
  next
    case poly
    then show ?thesis
      using polymod digest by (simp add: AddressEncode_def AddressDecode_def)
  next
    case eip
    then show ?thesis
      using eip55 digest by (simp add: AddressEncode_def AddressDecode_def)
  next
    case hx
    have enc: "AddressEncode c digest t = Done (''hx'' @ EncodeToString digest)"
      using hx icx digest by (simp add: AddressEncode_def)
    have "length digest = 20"
      using hx icx digest by (simp add: len_def)
    then show ?thesis
      using enc AddressDecode_ICX_encoded [OF hx] by simp
  next
    case b58
    then obtain checksum where
      sum: "calcChecksum c (prefix t @ digest @ suffix t) (checksumType t) = Done checksum"
      and four: "length checksum = 4"
      and codec: "Base58Decode c
          (Base58Encode c (prefix t @ digest @ suffix t @ checksum) (alphabet t)) (alphabet t)
        = Some (prefix t @ digest @ suffix t @ checksum)"
      using base58 by blast
    have enc: "AddressEncode c digest t =
        Done (Base58Encode c (prefix t @ digest @ suffix t @ checksum) (alphabet t))"
      using b58 digest sum by (simp add: AddressEncode_def catData_append encodeData_def)
    show ?thesis
      using enc AddressDecode_base58_framed [OF b58 sum four codec digest] by simp
  qed
qed

theorem AddressDecode_AddressEncode_witness:
  "AddressDecode demo ''00010203030303'' demo_base58 = Done (Inr [1, 2])
   \<and> AddressDecode demo (EncodeToString (replicate 20 7)) demo_bech32
       = Done (Inr (replicate 20 7))
   \<and> AddressDecode demo ''0102'' demo_base32PolyMod = Done (Inr [1, 2])
   \<and> AddressDecode demo (EncodeToString (replicate 20 7)) demo_eip55
       = Done (Inr (replicate 20 7))
   \<and> AddressDecode demo (''hx'' @ EncodeToString (replicate 20 7)) demo_ICX
       = Done (Inr (replicate 20 7))"
proof -
  have sum: "calcChecksum demo [0, 1, 2] ''doubleSHA256'' = Done [3, 3, 3, 3]"
    by (simp add: demo_simps calcChecksum_def replicate_numeral)
  have "AddressEncode demo [1, 2] demo_base58 = Done ''00010203030303''"
    by (simp add: AddressEncode_def catData_def encodeData_def sum demo_base58_def len_def)
      (simp add: demo_simps)
  moreover have "\<exists>address. AddressEncode demo [1, 2] demo_base58 = Done address
      \<and> AddressDecode demo address demo_base58 = Done (Inr [1, 2])"
    by (rule AddressDecode_AddressEncode; (simp add: demo_base58_def len_def sum)?;
        simp add: demo_simps)
  ultimately have b58: "AddressDecode demo ''00010203030303'' demo_base58 = Done (Inr [1, 2])"
    by auto
  have "AddressEncode demo (replicate 20 7) demo_bech32
      = Done (EncodeToString (replicate 20 7))"
    by (simp add: AddressEncode_def demo_def demo_bech32_def)
  moreover have "\<exists>address. AddressEncode demo (replicate 20 7) demo_bech32 = Done address
      \<and> AddressDecode demo address demo_bech32 = Done (Inr (replicate 20 7))"
    by (rule AddressDecode_AddressEncode)
      (simp_all add: demo_def demo_bech32_def demo_decode_def len_def
        DecodeString_EncodeToString)
  ultimately have bech: "AddressDecode demo (EncodeToString (replicate 20 7)) demo_bech32
      = Done (Inr (replicate 20 7))"
    by auto
  have "AddressEncode demo [1, 2] demo_base32PolyMod = Done ''0102''"
    by (simp add: AddressEncode_def demo_base32PolyMod_def len_def) (simp add: demo_simps)
  moreover have "\<exists>address. AddressEncode demo [1, 2] demo_base32PolyMod = Done address
      \<and> AddressDecode demo address demo_base32PolyMod = Done (Inr [1, 2])"
    by (rule AddressDecode_AddressEncode) (simp_all add: demo_simps)
  ultimately have poly: "AddressDecode demo ''0102'' demo_base32PolyMod = Done (Inr [1, 2])"
    by auto
  have "AddressEncode demo (replicate 20 7) demo_eip55
      = Done (EncodeToString (replicate 20 7))"
    by (simp add: AddressEncode_def demo_def demo_eip55_def len_def)
  moreover have "\<exists>address. AddressEncode demo (replicate 20 7) demo_eip55 = Done address
      \<and> AddressDecode demo address demo_eip55 = Done (Inr (replicate 20 7))"
    by (rule AddressDecode_AddressEncode)
      (simp_all add: demo_def demo_eip55_def demo_decode_def len_def
        DecodeString_EncodeToString)
  ultimately have eip: "AddressDecode demo (EncodeToString (replicate 20 7)) demo_eip55
      = Done (Inr (replicate 20 7))"
    by auto
  have "AddressEncode demo (replicate 20 7) demo_ICX
      = Done (''hx'' @ EncodeToString (replicate 20 7))"
    by (simp add: AddressEncode_def demo_ICX_def len_def)
  moreover have "\<exists>address. AddressEncode demo (replicate 20 7) demo_ICX = Done address
      \<and> AddressDecode demo address demo_ICX = Done (Inr (replicate 20 7))"
    by (rule AddressDecode_AddressEncode) (simp_all add: demo_ICX_def len_def)
  ultimately have icx: "AddressDecode demo (''hx'' @ EncodeToString (replicate 20 7)) demo_ICX
      = Done (Inr (replicate 20 7))"
    by auto
  show ?thesis using b58 bech poly eip icx by simp
qed

text \<open>
  Claim C1 as it is written, for every descriptor of the five dialects, fails on the ICX
  branch, whose decoder is written for the literal \<open>hx\<close> and for 40 hex characters. Under an
  ICX descriptor with \<open>hashLen\<close> 2 the two-byte digest \<open>ab cd\<close> is encoded as \<open>hxabcd\<close>, which
  decodes to \<open>ErrorInvalidHashLength\<close>; under an ICX descriptor with the literal \<open>cx\<close> a
  20-byte digest is encoded with \<open>cx\<close> in front, which decodes to \<open>ErrorInvalidAddress\<close>.
\<close>

theorem AddressDecode_AddressEncode_counterexample:
  "len [0xab, 0xcd :: byte] = hashLen (demo_ICX \<lparr>hashLen := 2\<rparr>)
   \<and> AddressEncode demo [0xab, 0xcd] (demo_ICX \<lparr>hashLen := 2\<rparr>) = Done ''hxabcd''
   \<and> AddressDecode demo ''hxabcd'' (demo_ICX \<lparr>hashLen := 2\<rparr>)
       = Done (Inl ErrorInvalidHashLength)
   \<and> len (replicate 20 (7 :: byte)) = hashLen (demo_ICX \<lparr>checksumType := ''cx''\<rparr>)
   \<and> AddressEncode demo (replicate 20 7) (demo_ICX \<lparr>checksumType := ''cx''\<rparr>)
       = Done ''cx0707070707070707070707070707070707070707''
   \<and> AddressDecode demo ''cx0707070707070707070707070707070707070707''
         (demo_ICX \<lparr>checksumType := ''cx''\<rparr>) = Done (Inl ErrorInvalidAddress)"
  by (simp add: AddressEncode_def AddressDecode_def demo_simps replicate_numeral)

end
